theory Spec2Isabelle
  imports Main
begin

section \<open>Python values, exceptions and printed output\<close>

text \<open>
  The values the generators and iterators of \<^verbatim>\<open>iterator_generator/\<close> exchange with
  their driver: \<^verbatim>\<open>None\<close>, booleans, integers (unbounded) and strings. An exception
  that leaves a call is the left injection of the call's result; \<^verbatim>\<open>StopIteration\<close>
  carries its \<^verbatim>\<open>value\<close> attribute, which is \<^verbatim>\<open>None\<close> unless a generator returned
  something, and \<^verbatim>\<open>ValueError\<close> is what formatting an integer that is too long
  raises. Lines written by \<^verbatim>\<open>print\<close> are returned by each call, in order.
\<close>

datatype pyval = VNone | VBool bool | VInt int | VStr string

datatype exc = StopIteration pyval | TypeError | ValueError

type_synonym 'a result = "exc + 'a"

type_synonym stdout = "string list"

text \<open>
  \<^verbatim>\<open>str(v)\<close>, which is what the replacement field \<^verbatim>\<open>{val}\<close> of an f-string inserts
  for these types. The interpreter refuses to convert an integer of more than
  \<^verbatim>\<open>sys.get_int_max_str_digits()\<close> decimal digits, the sign not counted, and raises
  \<^verbatim>\<open>ValueError\<close>; the limit is 4300 unless the interpreter is told otherwise.
\<close>

fun str_nat :: "nat \<Rightarrow> string" where
  "str_nat n =
     (if n < 10 then [''0123456789'' ! n]
      else str_nat (n div 10) @ [''0123456789'' ! (n mod 10)])"

declare str_nat.simps [simp del]

definition int_max_str_digits :: nat where
  "int_max_str_digits = 4300"

definition str_int :: "int \<Rightarrow> exc + string" where
  "str_int i =
     (if length (str_nat (nat \<bar>i\<bar>)) > int_max_str_digits then Inl ValueError
      else Inr ((if i < 0 then ''-'' else []) @ str_nat (nat \<bar>i\<bar>)))"

fun py_str :: "pyval \<Rightarrow> exc + string" where
  "py_str VNone = Inr ''None''"
| "py_str (VBool b) = Inr (if b then ''True'' else ''False'')"
| "py_str (VInt i) = str_int i"
| "py_str (VStr s) = Inr s"

text \<open>
  Reading a string of decimal digits back as a number. \<open>decimal_of n ds\<close> says that
  \<open>ds\<close> is the decimal numeral of \<open>n\<close>: digits only, no leading zero except in
  \<^verbatim>\<open>'0'\<close> itself, and of value \<open>n\<close>. It is what the properties below compare the
  formatted integers with.
\<close>

definition digit_value :: "char \<Rightarrow> nat" where
  "digit_value c = of_char c - 48"

definition digits_value :: "string \<Rightarrow> nat" where
  "digits_value ds = foldl (\<lambda>a c. 10 * a + digit_value c) 0 ds"

definition decimal_of :: "nat \<Rightarrow> string \<Rightarrow> bool" where
  "decimal_of n ds \<longleftrightarrow>
     ds \<noteq> [] \<and> list_all (\<lambda>c. c \<in> set ''0123456789'') ds
   \<and> (hd ds = CHR ''0'' \<longrightarrow> ds = ''0'') \<and> digits_value ds = n"

section \<open>The generator \<^verbatim>\<open>coroutine_echo\<close>\<close>

text \<open>
  \<^verbatim>\<open>
  def coroutine_echo():
      try:
          val = yield 'ready'
          while True:
              if val is None:
                  return 'closed'
              val = yield f'got {val}'
      finally:
          print('coroutine_echo: generator closed')
  \<close>
  A generator object is its frame: where the body is suspended, and the local \<^verbatim>\<open>val\<close>
  (unbound until the first value is received). \<open>Created\<close> is the generator before its
  body has run, \<open>At_yield_ready\<close> and \<open>At_yield_got\<close> are the two \<^verbatim>\<open>yield\<close>
  expressions the body can be suspended at, \<open>Finished\<close> is the generator after its body
  has returned or has been closed.
\<close>

datatype pc = Created | At_yield_ready | At_yield_got | Finished

record coroutine =
  pc :: pc
  val :: "pyval option"

definition coroutine_echo :: coroutine where
  "coroutine_echo = \<lparr>pc = Created, val = None\<rparr>"

definition finally_line :: string where
  "finally_line = ''coroutine_echo: generator closed''"

text \<open>
  The body from the assignment of the received value to \<^verbatim>\<open>val\<close> up to the next
  suspension or the return: both \<^verbatim>\<open>yield\<close> expressions continue here. Returning leaves
  the \<^verbatim>\<open>try\<close> block, so the \<^verbatim>\<open>finally\<close> clause prints its line before
  \<^verbatim>\<open>StopIteration('closed')\<close> reaches the driver. An exception raised while
  \<^verbatim>\<open>f'got {val}'\<close> is formatted leaves the \<^verbatim>\<open>try\<close> block as well: the
  \<^verbatim>\<open>finally\<close> clause prints, the generator is finished and the exception reaches the
  driver.
\<close>

definition resume_body :: "coroutine \<Rightarrow> pyval \<Rightarrow> pyval result \<times> coroutine \<times> stdout" where
  "resume_body g v =
     (if v = VNone
      then (Inl (StopIteration (VStr ''closed'')), g\<lparr>pc := Finished, val := Some v\<rparr>, [finally_line])
      else (case py_str v of
              Inl e \<Rightarrow> (Inl e, g\<lparr>pc := Finished, val := Some v\<rparr>, [finally_line])
            | Inr s \<Rightarrow> (Inr (VStr (''got '' @ s)), g\<lparr>pc := At_yield_got, val := Some v\<rparr>, [])))"

text \<open>
  \<^verbatim>\<open>g.send(v)\<close>. A generator that has not started accepts only \<^verbatim>\<open>None\<close> and then
  runs to its first \<^verbatim>\<open>yield\<close>; any other value raises \<^verbatim>\<open>TypeError\<close> and the
  generator stays as it was. A finished generator raises \<^verbatim>\<open>StopIteration\<close> with no
  value and runs nothing.
\<close>

fun send :: "coroutine \<Rightarrow> pyval \<Rightarrow> pyval result \<times> coroutine \<times> stdout" where
  "send g v =
     (case pc g of
        Created \<Rightarrow>
          (if v = VNone then (Inr (VStr ''ready''), g\<lparr>pc := At_yield_ready\<rparr>, [])
           else (Inl TypeError, g, []))
      | At_yield_ready \<Rightarrow> resume_body g v
      | At_yield_got \<Rightarrow> resume_body g v
      | Finished \<Rightarrow> (Inl (StopIteration VNone), g, []))"

text \<open>\<^verbatim>\<open>next(g)\<close> is \<^verbatim>\<open>g.send(None)\<close>.\<close>

definition next_gen :: "coroutine \<Rightarrow> pyval result \<times> coroutine \<times> stdout" where
  "next_gen g = send g VNone"

text \<open>
  \<^verbatim>\<open>g.close()\<close>, which is also what abandoning the generator runs. A suspended
  generator receives \<^verbatim>\<open>GeneratorExit\<close> at its \<^verbatim>\<open>yield\<close>, inside the \<^verbatim>\<open>try\<close>
  block: the \<^verbatim>\<open>finally\<close> clause prints and the generator finishes. A generator that
  has not started never entered the \<^verbatim>\<open>try\<close> block and finishes without running
  anything; a finished one is left alone. The call returns \<^verbatim>\<open>None\<close>.
\<close>

fun close :: "coroutine \<Rightarrow> pyval result \<times> coroutine \<times> stdout" where
  "close g =
     (case pc g of
        Created \<Rightarrow> (Inr VNone, g\<lparr>pc := Finished\<rparr>, [])
      | At_yield_ready \<Rightarrow> (Inr VNone, g\<lparr>pc := Finished\<rparr>, [finally_line])
      | At_yield_got \<Rightarrow> (Inr VNone, g\<lparr>pc := Finished\<rparr>, [finally_line])
      | Finished \<Rightarrow> (Inr VNone, g, []))"

text \<open>
  A driver is a sequence of calls on one generator; it catches what a call raises and
  goes on, as \<^verbatim>\<open>demo_send_close\<close> does. \<open>run\<close> returns the result of every call, the
  generator at the end and everything printed.
\<close>

datatype op = Next | Send pyval | Close

fun exec :: "coroutine \<Rightarrow> op \<Rightarrow> pyval result \<times> coroutine \<times> stdout" where
  "exec g Next = next_gen g"
| "exec g (Send v) = send g v"
| "exec g Close = close g"

fun run :: "coroutine \<Rightarrow> op list \<Rightarrow> pyval result list \<times> coroutine \<times> stdout" where
  "run g [] = ([], g, [])"
| "run g (x # xs) =
     (case exec g x of (r, g', out) \<Rightarrow>
        (case run g' xs of (rs, g'', out') \<Rightarrow> (r # rs, g'', out @ out')))"

text \<open>
  The states of a session as the specification names them, read off the frame:
  the specification's \<open>prime\<close> is \<^verbatim>\<open>next(g)\<close>, its \<open>resume\<close> is \<^verbatim>\<open>g.send\<close>, its
  sentinel is \<^verbatim>\<open>None\<close>, its \<open>Exhausted\<close> is \<^verbatim>\<open>StopIteration\<close> without a value and its
  \<open>InvalidStateError\<close> is \<^verbatim>\<open>TypeError\<close>.
\<close>

datatype session_state = NotStarted | Ready | Active | Closed

fun state :: "coroutine \<Rightarrow> session_state" where
  "state g =
     (case pc g of
        Created \<Rightarrow> NotStarted
      | At_yield_ready \<Rightarrow> Ready
      | At_yield_got \<Rightarrow> Active
      | Finished \<Rightarrow> Closed)"

definition primed :: "coroutine \<Rightarrow> bool" where
  "primed g = (state g = Ready \<or> state g = Active)"

text \<open>The scenario of \<^verbatim>\<open>demo_send_close\<close>.\<close>

definition demo_send_close :: "op list" where
  "demo_send_close = [Next, Send (VStr ''A''), Send (VStr ''B''), Send VNone, Next]"

definition final :: "coroutine \<Rightarrow> op list \<Rightarrow> coroutine" where
  "final g xs = fst (snd (run g xs))"

definition printed :: "coroutine \<Rightarrow> op list \<Rightarrow> stdout" where
  "printed g xs = snd (snd (run g xs))"

section \<open>The generator \<^verbatim>\<open>countdown\<close>\<close>

text \<open>
  \<^verbatim>\<open>
  def countdown(n):
      print("generator countdown() started")
      while n > 0:
          yield n
          n -= 1
      print("generator countdown() finished")
  \<close>
  The generator is its frame again: not yet started with its argument \<^verbatim>\<open>n\<close>,
  suspended at the \<^verbatim>\<open>yield\<close> with the current \<^verbatim>\<open>n\<close>, or finished.
\<close>

datatype countdown_gen = Cd_created int | Cd_suspended int | Cd_finished

definition countdown :: "int \<Rightarrow> countdown_gen" where
  "countdown n = Cd_created n"

text \<open>The loop from its test: yield \<^verbatim>\<open>n\<close>, or fall out, print and return.\<close>

definition countdown_while :: "int \<Rightarrow> int result \<times> countdown_gen \<times> stdout" where
  "countdown_while n =
     (if n > 0 then (Inr n, Cd_suspended n, [])
      else (Inl (StopIteration VNone), Cd_finished, [''generator countdown() finished'']))"

text \<open>
  \<^verbatim>\<open>next(gen)\<close>: a new generator prints and enters the loop; a suspended one
  decrements \<^verbatim>\<open>n\<close> and tests again; a finished one raises \<^verbatim>\<open>StopIteration\<close>.
\<close>

fun countdown_next :: "countdown_gen \<Rightarrow> int result \<times> countdown_gen \<times> stdout" where
  "countdown_next (Cd_created n) =
     (case countdown_while n of (r, g, out) \<Rightarrow> (r, g, ''generator countdown() started'' # out))"
| "countdown_next (Cd_suspended n) = countdown_while (n - 1)"
| "countdown_next Cd_finished = (Inl (StopIteration VNone), Cd_finished, [])"

text \<open>The number of values a generator still has to yield bounds the iteration.\<close>

fun countdown_left :: "countdown_gen \<Rightarrow> nat" where
  "countdown_left (Cd_created n) = Suc (nat n)"
| "countdown_left (Cd_suspended n) = nat n"
| "countdown_left Cd_finished = 0"

text \<open>
  Iterating to exhaustion, as \<^verbatim>\<open>for v in gen\<close> and \<^verbatim>\<open>list(gen)\<close> do: call
  \<^verbatim>\<open>next\<close> until it raises, collecting the values. The function is total: the
  iteration ends for every generator.
\<close>

function iterate :: "countdown_gen \<Rightarrow> int list \<times> countdown_gen \<times> stdout" where
  "iterate g =
     (case countdown_next g of
        (Inl e, g', out) \<Rightarrow> ([], g', out)
      | (Inr v, g', out) \<Rightarrow>
          (case iterate g' of (vs, g'', out') \<Rightarrow> (v # vs, g'', out @ out')))"
  by pat_completeness auto
termination
proof (relation "measure countdown_left")
  show "wf (measure countdown_left)" by simp
next
  fix g :: countdown_gen and x y v g' out
  assume "(x, y) = countdown_next g" and "x = Inr v" and "(g', out) = y"
  then have "countdown_next g = (Inr v, g', out)" by simp
  then show "(g', g) \<in> measure countdown_left"
    by (cases g) (auto simp: countdown_while_def split: if_splits)
qed

declare iterate.simps [simp del]

section \<open>The classes \<^verbatim>\<open>CountUpIterator\<close> and \<^verbatim>\<open>CountUpIterable\<close>\<close>

text \<open>
  \<^verbatim>\<open>
  class CountUpIterator:
      def __init__(self, max_inclusive):
          self.max = max_inclusive
          self.current = 0
      def __iter__(self):
          return self
      def __next__(self):
          if self.current >= self.max:
              raise StopIteration
          self.current += 1
          return self.current
  \<close>
  Iterators are mutable objects that the driver holds by reference, so they live in a
  store: \<open>cells\<close> gives the object at each reference and \<open>next_free\<close> is the next
  reference a constructor call hands out; the references below it are the allocated
  ones. The field \<^verbatim>\<open>max\<close> is \<open>it_max\<close> here.
\<close>

record CountUpIterator =
  it_max :: int
  current :: int

type_synonym ref = nat

record heap =
  cells :: "ref \<Rightarrow> CountUpIterator"
  next_free :: ref


definition CountUpIterator_init :: "heap \<Rightarrow> int \<Rightarrow> ref \<times> heap" where
  "CountUpIterator_init h max_inclusive =
     (next_free h,
      h\<lparr>cells := (cells h)(next_free h := \<lparr>it_max = max_inclusive, current = 0\<rparr>),
        next_free := Suc (next_free h)\<rparr>)"

definition CountUpIterator_iter :: "heap \<Rightarrow> ref \<Rightarrow> ref \<times> heap" where
  "CountUpIterator_iter h self = (self, h)"

definition CountUpIterator_next :: "heap \<Rightarrow> ref \<Rightarrow> int result \<times> heap" where
  "CountUpIterator_next h self =
     (if current (cells h self) \<ge> it_max (cells h self) then (Inl (StopIteration VNone), h)
      else (Inr (current (cells h self) + 1),
            h\<lparr>cells := (cells h)(self := (cells h self)\<lparr>current := current (cells h self) + 1\<rparr>)\<rparr>))"




text \<open>
  The loop of \<^verbatim>\<open>list(...)\<close> and of \<^verbatim>\<open>for\<close> on an iterator: \<^verbatim>\<open>__next__\<close> until it
  raises. It ends for every store and every reference.
\<close>

function exhaust :: "heap \<Rightarrow> ref \<Rightarrow> int list \<times> heap" where
  "exhaust h it =
     (case CountUpIterator_next h it of
        (Inl e, h') \<Rightarrow> ([], h')
      | (Inr v, h') \<Rightarrow> (case exhaust h' it of (vs, h'') \<Rightarrow> (v # vs, h'')))"
  by pat_completeness auto
termination
proof (relation "measure (\<lambda>(h, it). nat (it_max (cells h it) - current (cells h it)))")
  show "wf (measure (\<lambda>(h, it). nat (it_max (cells h it) - current (cells h it))))" by simp
next
  fix h :: heap and it :: ref and x h' v
  assume "(x, h') = CountUpIterator_next h it" and "x = Inr v"
  then have "CountUpIterator_next h it = (Inr v, h')" by simp
  then show "((h', it), (h, it)) \<in> measure (\<lambda>(h, it). nat (it_max (cells h it) - current (cells h it)))"
    by (auto simp: CountUpIterator_next_def split: if_splits)
qed

declare exhaust.simps [simp del]


definition list_iterator :: "heap \<Rightarrow> ref \<Rightarrow> int list \<times> heap" where
  "list_iterator h r = (case CountUpIterator_iter h r of (it, h') \<Rightarrow> exhaust h' it)"


fun next_times :: "nat \<Rightarrow> heap \<Rightarrow> ref \<Rightarrow> int result list \<times> heap" where
  "next_times 0 h r = ([], h)"
| "next_times (Suc k) h r =
     (case CountUpIterator_next h r of (x, h') \<Rightarrow>
        (case next_times k h' r of (xs, h'') \<Rightarrow> (x # xs, h'')))"

text \<open>A store with nothing allocated yet.\<close>

definition empty_heap :: heap where
  "empty_heap = \<lparr>cells = (\<lambda>_. \<lparr>it_max = 0, current = 0\<rparr>), next_free = 0\<rparr>"

section \<open>Properties of \<^verbatim>\<open>coroutine_echo\<close>\<close>

lemma state_Closed_iff: "state g = Closed \<longleftrightarrow> pc g = Finished"
  by (cases "pc g") simp_all

lemma state_NotStarted_iff: "state g = NotStarted \<longleftrightarrow> pc g = Created"
  by (cases "pc g") simp_all

lemma primed_iff: "primed g \<longleftrightarrow> pc g = At_yield_ready \<or> pc g = At_yield_got"
  by (cases "pc g") (simp_all add: primed_def)

lemma exec_Finished:
  assumes "pc g = Finished"
  shows "snd (exec g x) = (g, [])"
  using assms by (cases x) (simp_all add: next_gen_def)

lemma run_Finished:
  assumes "pc g = Finished"
  shows "snd (run g xs) = (g, [])"
proof (induction xs)
  case Nil
  show ?case by simp
next
  case (Cons x xs)
  obtain r where "exec g x = (r, g, [])"
    using exec_Finished [OF assms, of x] by (cases "exec g x") simp
  moreover obtain rs where "run g xs = (rs, g, [])"
    using Cons.IH by (cases "run g xs") simp
  ultimately show ?case by simp
qed

lemma run_append:
  "run g (xs @ ys) =
     (case run g xs of (rs, g', out) \<Rightarrow>
        (case run g' ys of (rs', g'', out') \<Rightarrow> (rs @ rs', g'', out @ out')))"
  by (induction xs arbitrary: g) (auto split: prod.splits)

lemma final_append: "final g (xs @ ys) = final (final g xs) ys"
  by (simp add: final_def run_append split: prod.splits)

lemma send_sentinel_primed:
  assumes "primed g"
  shows "send g VNone =
    (Inl (StopIteration (VStr ''closed'')), g\<lparr>pc := Finished, val := Some VNone\<rparr>, [finally_line])"
  using assms by (auto simp: primed_iff resume_body_def)

text \<open>
  C1. Once a session is Closed, every later \<^verbatim>\<open>send\<close>, whatever calls the driver made
  in between and whatever value it sends, raises \<^verbatim>\<open>StopIteration\<close> without a value: it
  never returns a value, prints nothing and leaves the generator as it was.
\<close>

theorem resume_after_closed_exhausted:
  assumes "state g = Closed"
  shows "send (final g xs) v = (Inl (StopIteration VNone), g, [])"
proof -
  have fin: "pc g = Finished"
    using assms by (simp only: state_Closed_iff)
  have "final g xs = g"
    using run_Finished [OF fin, of xs] by (simp add: final_def)
  with fin show ?thesis by simp
qed

theorem resume_after_closed_exhausted_witness:
  "state (final coroutine_echo [Next, Send (VStr ''A''), Send VNone]) = Closed \<and>
   send (final (final coroutine_echo [Next, Send (VStr ''A''), Send VNone]) [Close, Next])
        (VStr ''B'')
     = (Inl (StopIteration VNone),
        final coroutine_echo [Next, Send (VStr ''A''), Send VNone], [])"
proof -
  have h: "state (final coroutine_echo [Next, Send (VStr ''A''), Send VNone]) = Closed"
    by (simp add: final_def coroutine_echo_def next_gen_def resume_body_def)
  from resume_after_closed_exhausted [OF h] h show ?thesis by simp
qed

subsection \<open>Formatting integers\<close>

lemma digit_cases:
  assumes "d < (10::nat)"
  obtains "d = 0" | "d = 1" | "d = 2" | "d = 3" | "d = 4" | "d = 5" | "d = 6" | "d = 7"
    | "d = 8" | "d = 9"
  using assms by atomize_elim arith

lemma digit_value_nth:
  assumes "d < 10"
  shows "digit_value (''0123456789'' ! d) = d"
  using assms by (rule digit_cases) (simp_all add: digit_value_def)

lemma digit_nth_in:
  assumes "d < 10"
  shows "''0123456789'' ! d \<in> set ''0123456789''"
  using assms by (rule digit_cases) simp_all

lemma digit_nth_zero:
  assumes "d < 10" and "''0123456789'' ! d = CHR ''0''"
  shows "d = 0"
  using assms by (elim digit_cases) simp_all

lemma digits_value_snoc: "digits_value (ds @ [c]) = 10 * digits_value ds + digit_value c"
  by (simp add: digits_value_def)

lemma str_nat_nonempty: "str_nat n \<noteq> []"
  by (subst str_nat.simps) simp

lemma str_nat_digits: "list_all (\<lambda>c. c \<in> set ''0123456789'') (str_nat n)"
proof (induction n rule: str_nat.induct)
  case (1 n)
  show ?case
  proof (cases "n < 10")
    case True
    then show ?thesis
      using digit_nth_in [of n] by (subst str_nat.simps) simp
  next
    case False
    have "n mod 10 < 10" by simp
    then have "''0123456789'' ! (n mod 10) \<in> set ''0123456789''" by (rule digit_nth_in)
    with False "1.IH" show ?thesis
      by (subst str_nat.simps) simp
  qed
qed

lemma str_nat_value: "digits_value (str_nat n) = n"
proof (induction n rule: str_nat.induct)
  case (1 n)
  show ?case
  proof (cases "n < 10")
    case True
    then show ?thesis
      by (subst str_nat.simps) (simp add: digits_value_def digit_value_nth)
  next
    case False
    have "digit_value (''0123456789'' ! (n mod 10)) = n mod 10"
      by (rule digit_value_nth) simp
    with False "1.IH" show ?thesis
      by (subst str_nat.simps) (simp add: digits_value_snoc)
  qed
qed

lemma str_nat_leading_zero:
  assumes "hd (str_nat n) = CHR ''0''"
  shows "n = 0"
  using assms
proof (induction n rule: str_nat.induct)
  case (1 n)
  show ?case
  proof (cases "n < 10")
    case True
    with "1.prems" have "''0123456789'' ! n = CHR ''0''"
      by (subst (asm) str_nat.simps) simp
    with True show ?thesis by (rule digit_nth_zero)
  next
    case False
    with "1.prems" have "hd (str_nat (n div 10)) = CHR ''0''"
      by (subst (asm) str_nat.simps) (simp add: str_nat_nonempty)
    with False "1.IH" have "n div 10 = 0" by simp
    with False show ?thesis by simp
  qed
qed

lemma str_nat_zero: "str_nat 0 = ''0''"
  by (subst str_nat.simps) simp

lemma decimal_of_str_nat: "decimal_of n (str_nat n)"
  unfolding decimal_of_def
  using str_nat_nonempty [of n] str_nat_digits [of n] str_nat_value [of n]
    str_nat_leading_zero [of n] str_nat_zero
  by auto

lemma str_nat_length_le:
  assumes "n < 10 ^ k" and "0 < k"
  shows "length (str_nat n) \<le> k"
  using assms
proof (induction k arbitrary: n)
  case 0
  then show ?case by simp
next
  case (Suc k)
  show ?case
  proof (cases "n < 10")
    case True
    then show ?thesis by (subst str_nat.simps) simp
  next
    case False
    from Suc.prems(1) have lt: "n div 10 < 10 ^ k"
      by (simp add: less_mult_imp_div_less mult.commute)
    from False lt have "0 < k" by (cases k) simp_all
    with lt have "length (str_nat (n div 10)) \<le> k" by (rule Suc.IH)
    with False show ?thesis by (subst str_nat.simps) simp
  qed
qed

lemma str_nat_length_gt:
  assumes "10 ^ k \<le> n"
  shows "k < length (str_nat n)"
  using assms
proof (induction k arbitrary: n)
  case 0
  then show ?case using str_nat_nonempty [of n] by (cases "str_nat n") simp_all
next
  case (Suc k)
  from Suc.prems have ge: "10 ^ k \<le> n div 10"
    by (simp add: less_eq_div_iff_mult_less_eq mult.commute)
  have "(10::nat) ^ Suc k \<ge> 10" by simp
  with Suc.prems have "\<not> n < 10" by linarith
  with Suc.IH [OF ge] show ?case by (subst str_nat.simps) simp
qed

lemma str_int_ok:
  assumes "\<bar>i\<bar> < 10 ^ int_max_str_digits"
  shows "str_int i = Inr ((if i < 0 then ''-'' else []) @ str_nat (nat \<bar>i\<bar>))"
proof -
  have "nat \<bar>i\<bar> < 10 ^ int_max_str_digits"
    using assms by (simp add: nat_less_iff)
  moreover have "0 < int_max_str_digits" by (simp add: int_max_str_digits_def)
  ultimately have "length (str_nat (nat \<bar>i\<bar>)) \<le> int_max_str_digits"
    by (rule str_nat_length_le)
  then show ?thesis by (simp add: str_int_def)
qed

lemma str_int_too_long:
  assumes "10 ^ int_max_str_digits \<le> \<bar>i\<bar>"
  shows "str_int i = Inl ValueError"
proof -
  have "10 ^ int_max_str_digits \<le> nat \<bar>i\<bar>"
    using assms by (simp add: le_nat_iff)
  then have "int_max_str_digits < length (str_nat (nat \<bar>i\<bar>))"
    by (rule str_nat_length_gt)
  then show ?thesis by (simp add: str_int_def)
qed

lemma send_int_ok:
  assumes "primed g" and "\<bar>i\<bar> < 10 ^ int_max_str_digits"
  shows "send g (VInt i) =
    (Inr (VStr (''got '' @ (if i < 0 then ''-'' else []) @ str_nat (nat \<bar>i\<bar>))),
     g\<lparr>pc := At_yield_got, val := Some (VInt i)\<rparr>, [])"
  using assms(1) by (auto simp: primed_iff resume_body_def str_int_ok [OF assms(2)])

lemma send_int_too_long:
  assumes "primed g" and "10 ^ int_max_str_digits \<le> \<bar>i\<bar>"
  shows "send g (VInt i) =
    (Inl ValueError, g\<lparr>pc := Finished, val := Some (VInt i)\<rparr>, [finally_line])"
  using assms(1) by (auto simp: primed_iff resume_body_def str_int_too_long [OF assms(2)])

lemma send_primed_state:
  assumes "primed g" and "v \<noteq> VNone"
  shows "case fst (send g v) of
           Inl e \<Rightarrow> state (fst (snd (send g v))) = Closed
         | Inr y \<Rightarrow> state (fst (snd (send g v))) = Active"
  using assms by (auto simp: primed_iff resume_body_def split: sum.splits)

lemma small_int_below_limit:
  assumes "\<bar>i\<bar> < (100::int)"
  shows "\<bar>i\<bar> < 10 ^ int_max_str_digits"
proof -
  have "(10::int) ^ 2 \<le> 10 ^ int_max_str_digits"
    by (rule power_increasing) (simp_all add: int_max_str_digits_def)
  with assms show ?thesis by simp
qed

subsection \<open>The calls on a session\<close>

text \<open>
  C2, as the code has it. On a primed session (suspended at either \<^verbatim>\<open>yield\<close>),
  sending a string \<open>s\<close> returns \<^verbatim>\<open>'got '\<close> followed by \<open>s\<close>; sending a boolean returns
  \<^verbatim>\<open>'got True'\<close> or \<^verbatim>\<open>'got False'\<close>; sending an integer of at most 4300 decimal
  digits returns \<^verbatim>\<open>'got '\<close> followed by its sign and its decimal numeral. Each of these
  depends on the value alone, prints nothing and leaves the session Active. Sending an
  integer of more than 4300 digits raises \<^verbatim>\<open>ValueError\<close>, prints the line of the
  \<^verbatim>\<open>finally\<close> clause and leaves the session Closed. A value other than \<^verbatim>\<open>None\<close>
  leaves the session Active exactly when the call returns.
\<close>

theorem resume_echoes:
  assumes "primed g"
  shows "int_max_str_digits = 4300
       \<and> send g (VStr s) =
           (Inr (VStr (''got '' @ s)), g\<lparr>pc := At_yield_got, val := Some (VStr s)\<rparr>, [])
       \<and> send g (VBool b) =
           (Inr (VStr (if b then ''got True'' else ''got False'')),
            g\<lparr>pc := At_yield_got, val := Some (VBool b)\<rparr>, [])
       \<and> (\<bar>i\<bar> < 10 ^ int_max_str_digits \<longrightarrow>
            send g (VInt i) =
              (Inr (VStr (''got '' @ (if i < 0 then ''-'' else []) @ str_nat (nat \<bar>i\<bar>))),
               g\<lparr>pc := At_yield_got, val := Some (VInt i)\<rparr>, [])
          \<and> decimal_of (nat \<bar>i\<bar>) (str_nat (nat \<bar>i\<bar>)))
       \<and> (10 ^ int_max_str_digits \<le> \<bar>i\<bar> \<longrightarrow>
            send g (VInt i) =
              (Inl ValueError, g\<lparr>pc := Finished, val := Some (VInt i)\<rparr>, [finally_line]))
       \<and> (v \<noteq> VNone \<longrightarrow>
            (case fst (send g v) of
               Inl e \<Rightarrow> state (fst (snd (send g v))) = Closed
             | Inr y \<Rightarrow> state (fst (snd (send g v))) = Active))"
proof (intro conjI impI)
  show "int_max_str_digits = 4300"
    by (rule int_max_str_digits_def)
next
  show "send g (VStr s) =
      (Inr (VStr (''got '' @ s)), g\<lparr>pc := At_yield_got, val := Some (VStr s)\<rparr>, [])"
    using assms by (auto simp: primed_iff resume_body_def)
next
  show "send g (VBool b) =
      (Inr (VStr (if b then ''got True'' else ''got False'')),
       g\<lparr>pc := At_yield_got, val := Some (VBool b)\<rparr>, [])"
    using assms by (auto simp: primed_iff resume_body_def)
next
  assume "\<bar>i\<bar> < 10 ^ int_max_str_digits"
  with assms show "send g (VInt i) =
      (Inr (VStr (''got '' @ (if i < 0 then ''-'' else []) @ str_nat (nat \<bar>i\<bar>))),
       g\<lparr>pc := At_yield_got, val := Some (VInt i)\<rparr>, [])"
    by (rule send_int_ok)
next
  show "decimal_of (nat \<bar>i\<bar>) (str_nat (nat \<bar>i\<bar>))"
    by (rule decimal_of_str_nat)
next
  assume "10 ^ int_max_str_digits \<le> \<bar>i\<bar>"
  with assms show "send g (VInt i) =
      (Inl ValueError, g\<lparr>pc := Finished, val := Some (VInt i)\<rparr>, [finally_line])"
    by (rule send_int_too_long)
next
  assume "v \<noteq> VNone"
  with assms show "case fst (send g v) of
      Inl e \<Rightarrow> state (fst (snd (send g v))) = Closed
    | Inr y \<Rightarrow> state (fst (snd (send g v))) = Active"
    by (rule send_primed_state)
qed

theorem resume_echoes_witness:
  "primed (final coroutine_echo [Next]) \<and>
   fst (send (final coroutine_echo [Next]) (VStr ''A'')) = Inr (VStr ''got A'') \<and>
   fst (send (final coroutine_echo [Next]) (VBool True)) = Inr (VStr ''got True'') \<and>
   \<bar>- 42\<bar> < (10::int) ^ int_max_str_digits \<and>
   fst (send (final coroutine_echo [Next]) (VInt (- 42))) = Inr (VStr ''got -42'') \<and>
   decimal_of 42 ''42'' \<and>
   VInt (- 42) \<noteq> VNone \<and>
   state (fst (snd (send (final coroutine_echo [Next]) (VInt (- 42))))) = Active \<and>
   (10::int) ^ int_max_str_digits \<le> \<bar>10 ^ int_max_str_digits\<bar> \<and>
   fst (send (final coroutine_echo [Next]) (VInt (10 ^ int_max_str_digits))) = Inl ValueError"
proof -
  let ?g = "final coroutine_echo [Next]"
  have h: "primed ?g"
    by (simp add: final_def coroutine_echo_def next_gen_def primed_def)
  have small: "\<bar>- 42\<bar> < (10::int) ^ int_max_str_digits"
    by (rule small_int_below_limit) simp
  have big: "(10::int) ^ int_max_str_digits \<le> \<bar>10 ^ int_max_str_digits\<bar>"
    by simp
  have digits: "str_nat (nat \<bar>- 42\<bar>) = ''42''" and n: "nat \<bar>- 42\<bar> = 42"
    and digits': "str_nat 42 = ''42''"
    by (simp_all add: str_nat.simps)
  note a = resume_echoes [OF h, where s = "''A''" and b = True and i = "- 42"
      and v = "VInt (- 42)"]
  note b = resume_echoes [OF h, where i = "10 ^ int_max_str_digits"]
  from a have s1: "send ?g (VStr ''A'') =
      (Inr (VStr (''got '' @ ''A'')), ?g\<lparr>pc := At_yield_got, val := Some (VStr ''A'')\<rparr>, [])"
    by blast
  from a have s2: "send ?g (VBool True) =
      (Inr (VStr (if True then ''got True'' else ''got False'')),
       ?g\<lparr>pc := At_yield_got, val := Some (VBool True)\<rparr>, [])"
    by blast
  from a small have s3: "send ?g (VInt (- 42)) =
      (Inr (VStr (''got '' @ (if (- 42::int) < 0 then ''-'' else []) @ str_nat (nat \<bar>- 42\<bar>))),
       ?g\<lparr>pc := At_yield_got, val := Some (VInt (- 42))\<rparr>, [])"
    and d: "decimal_of (nat \<bar>- 42\<bar>) (str_nat (nat \<bar>- 42\<bar>))"
    by blast+
  from a have s4: "case fst (send ?g (VInt (- 42))) of
      Inl e \<Rightarrow> state (fst (snd (send ?g (VInt (- 42))))) = Closed
    | Inr y \<Rightarrow> state (fst (snd (send ?g (VInt (- 42))))) = Active"
    by blast
  from b big have s5: "send ?g (VInt (10 ^ int_max_str_digits)) =
      (Inl ValueError, ?g\<lparr>pc := Finished, val := Some (VInt (10 ^ int_max_str_digits))\<rparr>,
       [finally_line])"
    by blast
  have r1: "fst (send ?g (VStr ''A'')) = Inr (VStr ''got A'')"
    by (simp only: s1) simp
  have r2: "fst (send ?g (VBool True)) = Inr (VStr ''got True'')"
    by (simp only: s2) simp
  have r3: "fst (send ?g (VInt (- 42))) = Inr (VStr ''got -42'')"
    by (simp only: s3 digits) simp
  have r4: "state (fst (snd (send ?g (VInt (- 42))))) = Active"
    using s4 by (simp only: r3) simp
  have r5: "fst (send ?g (VInt (10 ^ int_max_str_digits))) = Inl ValueError"
    by (simp only: s5) simp
  have r6: "decimal_of 42 ''42''"
    using d by (simp only: n digits')
  from h small big r1 r2 r3 r4 r5 r6 show ?thesis by blast
qed

text \<open>
  C2 as stated fails for an integer of 4301 digits: sending \<open>10 ^ 4300\<close> to the session
  that has just been primed returns no value. It raises \<^verbatim>\<open>ValueError\<close>, prints the
  line of the \<^verbatim>\<open>finally\<close> clause and leaves the session Closed.
\<close>

theorem resume_echoes_counterexample:
  "int_max_str_digits = 4300 \<and>
   primed (final coroutine_echo [Next]) \<and>
   VInt (10 ^ int_max_str_digits) \<noteq> VNone \<and>
   send (final coroutine_echo [Next]) (VInt (10 ^ int_max_str_digits))
     = (Inl ValueError, \<lparr>pc = Finished, val = Some (VInt (10 ^ int_max_str_digits))\<rparr>,
        [finally_line]) \<and>
   state (fst (snd (send (final coroutine_echo [Next]) (VInt (10 ^ int_max_str_digits)))))
     = Closed"
proof -
  let ?g = "final coroutine_echo [Next]"
  have g: "?g = \<lparr>pc = At_yield_ready, val = None\<rparr>"
    by (simp add: final_def coroutine_echo_def next_gen_def)
  have h: "primed ?g"
    by (simp add: g primed_def)
  have big: "(10::int) ^ int_max_str_digits \<le> \<bar>10 ^ int_max_str_digits\<bar>"
    by simp
  have s: "send ?g (VInt (10 ^ int_max_str_digits)) =
      (Inl ValueError, ?g\<lparr>pc := Finished, val := Some (VInt (10 ^ int_max_str_digits))\<rparr>,
       [finally_line])"
    using h big by (rule send_int_too_long)
  have s': "send ?g (VInt (10 ^ int_max_str_digits)) =
      (Inl ValueError, \<lparr>pc = Finished, val = Some (VInt (10 ^ int_max_str_digits))\<rparr>,
       [finally_line])"
    using s unfolding g by simp
  have c: "state (fst (snd (send ?g (VInt (10 ^ int_max_str_digits))))) = Closed"
    by (simp only: s') simp
  have l: "int_max_str_digits = 4300"
    by (rule int_max_str_digits_def)
  have d: "VInt (10 ^ int_max_str_digits) \<noteq> VNone"
    by simp
  from l h d s' c show ?thesis by blast
qed

lemma count_finally_singleton: "count_list [finally_line] finally_line = 1"
  by simp

lemma printed_Finished:
  assumes "pc g = Finished"
  shows "printed g xs = []"
  using run_Finished [OF assms, of xs] by (simp add: printed_def)

text \<open>
  C3. On a primed session, sending \<^verbatim>\<open>None\<close> raises \<^verbatim>\<open>StopIteration('closed')\<close>
  (no value is returned; the payload is the body's return value), leaves the session
  Closed and prints the line of the \<^verbatim>\<open>finally\<close> clause. Whatever the driver calls
  afterwards (\<^verbatim>\<open>close\<close>, \<^verbatim>\<open>next\<close>, \<^verbatim>\<open>send\<close>, any number of times), that line has
  been printed exactly once.
\<close>

theorem sentinel_closes_once:
  assumes "primed g"
  shows "fst (send g VNone) = Inl (StopIteration (VStr ''closed''))
       \<and> state (fst (snd (send g VNone))) = Closed
       \<and> snd (snd (send g VNone)) = [finally_line]
       \<and> count_list (printed g (Send VNone # xs)) finally_line = 1"
proof -
  let ?g' = "g\<lparr>pc := Finished, val := Some VNone\<rparr>"
  have s: "send g VNone = (Inl (StopIteration (VStr ''closed'')), ?g', [finally_line])"
    by (rule send_sentinel_primed [OF assms])
  have "pc ?g' = Finished" by simp
  then have "printed ?g' xs = []" by (rule printed_Finished)
  then have p: "snd (snd (run ?g' xs)) = []" by (simp only: printed_def)
  have "printed g (Send VNone # xs) = [finally_line]"
    by (simp add: printed_def case_prod_beta s p del: send.simps)
  then have "count_list (printed g (Send VNone # xs)) finally_line = 1"
    by (simp only: count_finally_singleton)
  then show ?thesis
    by (simp add: s del: send.simps)
qed

theorem sentinel_closes_once_witness:
  "primed (final coroutine_echo [Next, Send (VStr ''A'')]) \<and>
   fst (send (final coroutine_echo [Next, Send (VStr ''A'')]) VNone)
     = Inl (StopIteration (VStr ''closed'')) \<and>
   state (fst (snd (send (final coroutine_echo [Next, Send (VStr ''A'')]) VNone))) = Closed \<and>
   count_list (printed (final coroutine_echo [Next, Send (VStr ''A'')])
                 [Send VNone, Close, Next, Close, Send (VStr ''B'')]) finally_line = 1"
proof -
  have h: "primed (final coroutine_echo [Next, Send (VStr ''A'')])"
    by (simp add: final_def coroutine_echo_def next_gen_def resume_body_def primed_def)
  from sentinel_closes_once [OF h, of "[Close, Next, Close, Send (VStr ''B'')]"] h
  show ?thesis by simp
qed

text \<open>
  C4, as the code has it. On a session that has not started, sending any value other
  than \<^verbatim>\<open>None\<close> raises \<^verbatim>\<open>TypeError\<close> and leaves the session NotStarted; sending
  \<^verbatim>\<open>None\<close> is the priming call: it returns \<^verbatim>\<open>'ready'\<close> and the session is Ready.
\<close>

theorem resume_not_started:
  assumes "state g = NotStarted"
  shows "(v \<noteq> VNone \<longrightarrow> send g v = (Inl TypeError, g, []))
       \<and> (v = VNone \<longrightarrow> send g v = (Inr (VStr ''ready''), g\<lparr>pc := At_yield_ready\<rparr>, []))"
proof -
  have "pc g = Created"
    using assms by (simp only: state_NotStarted_iff)
  then show ?thesis by simp
qed

theorem resume_not_started_witness:
  "state coroutine_echo = NotStarted \<and>
   send coroutine_echo (VStr ''A'') = (Inl TypeError, coroutine_echo, []) \<and>
   state (fst (snd (send coroutine_echo (VStr ''A'')))) = NotStarted"
proof -
  have h: "state coroutine_echo = NotStarted"
    by (simp add: coroutine_echo_def)
  from resume_not_started [OF h, of "VStr ''A''"] h show ?thesis by simp
qed

text \<open>
  C4 as stated fails for the input \<^verbatim>\<open>None\<close>: on the new generator \<^verbatim>\<open>send(None)\<close>
  raises nothing and returns \<^verbatim>\<open>'ready'\<close>.
\<close>

theorem resume_not_started_counterexample:
  "state coroutine_echo = NotStarted \<and>
   send coroutine_echo VNone = (Inr (VStr ''ready''), \<lparr>pc = At_yield_ready, val = None\<rparr>, []) \<and>
   fst (send coroutine_echo VNone) \<noteq> Inl TypeError"
  by (simp add: coroutine_echo_def)

text \<open>
  C5, as the code has it. \<^verbatim>\<open>next\<close> on a session that has started never raises
  \<^verbatim>\<open>TypeError\<close>. On a primed session it is the sentinel: it raises
  \<^verbatim>\<open>StopIteration('closed')\<close>, prints the line of the \<^verbatim>\<open>finally\<close> clause and leaves the
  session Closed. On a Closed session it raises \<^verbatim>\<open>StopIteration\<close> without a value and
  changes nothing.
\<close>

theorem prime_again:
  assumes "state g \<noteq> NotStarted"
  shows "fst (next_gen g) \<noteq> Inl TypeError
       \<and> (primed g \<longrightarrow>
            next_gen g = (Inl (StopIteration (VStr ''closed'')),
                          g\<lparr>pc := Finished, val := Some VNone\<rparr>, [finally_line]))
       \<and> (state g = Closed \<longrightarrow> next_gen g = (Inl (StopIteration VNone), g, []))"
proof -
  have "pc g \<noteq> Created"
    using assms by (simp only: state_NotStarted_iff) simp
  then show ?thesis
    by (cases "pc g") (simp_all add: next_gen_def resume_body_def primed_def)
qed

theorem prime_again_witness:
  "state (final coroutine_echo [Next]) \<noteq> NotStarted \<and>
   primed (final coroutine_echo [Next]) \<and>
   fst (next_gen (final coroutine_echo [Next])) = Inl (StopIteration (VStr ''closed'')) \<and>
   state (fst (snd (next_gen (final coroutine_echo [Next])))) = Closed"
proof -
  have h: "state (final coroutine_echo [Next]) \<noteq> NotStarted"
    by (simp add: final_def coroutine_echo_def next_gen_def)
  have p: "primed (final coroutine_echo [Next])"
    by (simp add: final_def coroutine_echo_def next_gen_def primed_def)
  from prime_again [OF h] h p show ?thesis by simp
qed

text \<open>
  C5 as stated fails on the session that has just been primed: a second \<^verbatim>\<open>next\<close>
  raises \<^verbatim>\<open>StopIteration('closed')\<close>, not \<^verbatim>\<open>TypeError\<close>, and closes the session.
\<close>

theorem prime_again_counterexample:
  "state (final coroutine_echo [Next]) = Ready \<and>
   next_gen (final coroutine_echo [Next])
     = (Inl (StopIteration (VStr ''closed'')), \<lparr>pc = Finished, val = Some VNone\<rparr>, [finally_line]) \<and>
   fst (next_gen (final coroutine_echo [Next])) \<noteq> Inl TypeError"
  by (simp add: final_def coroutine_echo_def next_gen_def resume_body_def)

text \<open>
  C6. On a session that has not started, \<^verbatim>\<open>next\<close> runs the body to its first
  \<^verbatim>\<open>yield\<close>: it returns \<^verbatim>\<open>'ready'\<close>, prints nothing, and the session is Ready.
\<close>

theorem prime_ready:
  assumes "state g = NotStarted"
  shows "next_gen g = (Inr (VStr ''ready''), g\<lparr>pc := At_yield_ready\<rparr>, [])
       \<and> state (fst (snd (next_gen g))) = Ready"
proof -
  have "pc g = Created"
    using assms by (simp only: state_NotStarted_iff)
  then show ?thesis by (simp add: next_gen_def)
qed

theorem prime_ready_witness:
  "state coroutine_echo = NotStarted \<and>
   fst (next_gen coroutine_echo) = Inr (VStr ''ready'') \<and>
   state (fst (snd (next_gen coroutine_echo))) = Ready"
proof -
  have h: "state coroutine_echo = NotStarted"
    by (simp add: coroutine_echo_def)
  from prime_ready [OF h] h show ?thesis by simp
qed

text \<open>
  C7. If a session is Closed after the calls \<open>xs\<close>, it is Closed after any further
  calls \<open>ys\<close> (\<^verbatim>\<open>next\<close>, \<^verbatim>\<open>send\<close> or \<^verbatim>\<open>close\<close>), and it is the same generator.
\<close>

theorem closed_is_terminal:
  assumes "state (final g xs) = Closed"
  shows "state (final g (xs @ ys)) = Closed \<and> final g (xs @ ys) = final g xs"
proof -
  have fin: "pc (final g xs) = Finished"
    using assms by (simp only: state_Closed_iff)
  have "final (final g xs) ys = final g xs"
    using run_Finished [OF fin, of ys] by (simp add: final_def)
  then have "final g (xs @ ys) = final g xs"
    by (simp only: final_append)
  with assms show ?thesis by simp
qed

theorem closed_is_terminal_witness:
  "state (final coroutine_echo [Next, Close]) = Closed \<and>
   state (final coroutine_echo ([Next, Close] @ [Next, Send (VStr ''A''), Close, Send VNone])) = Closed"
proof -
  have h: "state (final coroutine_echo [Next, Close]) = Closed"
    by (simp add: final_def coroutine_echo_def next_gen_def)
  from closed_is_terminal [OF h] h show ?thesis by simp
qed

lemma printed_Cons:
  "printed g (x # xs) = snd (snd (exec g x)) @ printed (fst (snd (exec g x))) xs"
  by (simp add: printed_def case_prod_beta del: exec.simps)

lemma final_Cons: "final g (x # xs) = final (fst (snd (exec g x))) xs"
  by (simp add: final_def case_prod_beta del: exec.simps)

lemma exec_primed_cases:
  assumes "primed g"
  shows "(primed (fst (snd (exec g x))) \<and> snd (snd (exec g x)) = [])
       \<or> (pc (fst (snd (exec g x))) = Finished \<and> snd (snd (exec g x)) = [finally_line])"
  using assms
  by (cases x) (auto simp: primed_iff next_gen_def resume_body_def split: sum.splits)

text \<open>
  However a primed session ends, the line of the \<^verbatim>\<open>finally\<close> clause has been
  printed once if the session is Closed and not at all otherwise.
\<close>

lemma finalization_once_primed:
  assumes "primed g"
  shows "count_list (printed g xs) finally_line = (if state (final g xs) = Closed then 1 else 0)"
  using assms
proof (induction xs arbitrary: g)
  case Nil
  then show ?case by (auto simp: printed_def final_def primed_iff)
next
  case (Cons x xs)
  let ?g' = "fst (snd (exec g x))"
  from exec_primed_cases [OF Cons.prems, of x] show ?case
  proof
    assume a: "primed ?g' \<and> snd (snd (exec g x)) = []"
    then have "count_list (printed ?g' xs) finally_line
        = (if state (final ?g' xs) = Closed then 1 else 0)"
      using Cons.IH by blast
    with a show ?thesis by (simp only: printed_Cons final_Cons) simp
  next
    assume a: "pc ?g' = Finished \<and> snd (snd (exec g x)) = [finally_line]"
    then have "printed ?g' xs = []" and "final ?g' xs = ?g'"
      using printed_Finished [of ?g' xs] run_Finished [of ?g' xs] by (simp_all add: final_def)
    with a show ?thesis
      by (simp only: printed_Cons final_Cons state_Closed_iff) simp
  qed
qed

text \<open>
  The calls of \<^verbatim>\<open>demo_send_close\<close>, in order: \<^verbatim>\<open>'ready'\<close>, \<^verbatim>\<open>'got A'\<close>,
  \<^verbatim>\<open>'got B'\<close>, \<^verbatim>\<open>StopIteration('closed')\<close>, \<^verbatim>\<open>StopIteration\<close>; the line of the
  \<^verbatim>\<open>finally\<close> clause is printed once.
\<close>

lemma demo_send_close_run:
  "run coroutine_echo demo_send_close =
     ([Inr (VStr ''ready''), Inr (VStr ''got A''), Inr (VStr ''got B''),
       Inl (StopIteration (VStr ''closed'')), Inl (StopIteration VNone)],
      \<lparr>pc = Finished, val = Some VNone\<rparr>, [finally_line])"
  by (simp add: demo_send_close_def coroutine_echo_def next_gen_def resume_body_def)

section \<open>Properties of \<^verbatim>\<open>countdown\<close>\<close>

lemma iterate_suspended:
  "iterate (Cd_suspended n) = (rev [1..n - 1], Cd_finished, [''generator countdown() finished''])"
proof (induction "nat n" arbitrary: n)
  case 0
  then have "n - 1 < 1" by simp
  then show ?case
    by (simp add: iterate.simps [of "Cd_suspended n"] countdown_while_def)
next
  case (Suc k)
  show ?case
  proof (cases "n - 1 > 0")
    case True
    have "k = nat (n - 1)" using Suc.hyps(2) by simp
    then have IH: "iterate (Cd_suspended (n - 1)) =
        (rev [1..n - 1 - 1], Cd_finished, [''generator countdown() finished''])"
      by (rule Suc.hyps(1))
    have "[1..n - 1] = [1..n - 1 - 1] @ [n - 1]"
      using True by (intro upto_rec2) simp
    then show ?thesis
      using True IH by (simp add: iterate.simps [of "Cd_suspended n"] countdown_while_def)
  next
    case False
    then show ?thesis
      by (simp add: iterate.simps [of "Cd_suspended n"] countdown_while_def)
  qed
qed

lemma iterate_countdown:
  "iterate (countdown n) =
     (rev [1..n], Cd_finished,
      [''generator countdown() started'', ''generator countdown() finished''])"
proof (cases "n > 0")
  case True
  have "[1..n] = [1..n - 1] @ [n]"
    using True by (intro upto_rec2) simp
  then show ?thesis
    using True
    by (simp add: iterate.simps [of "Cd_created n"] countdown_def countdown_while_def
        iterate_suspended)
next
  case False
  then show ?thesis
    by (simp add: iterate.simps [of "Cd_created n"] countdown_def countdown_while_def)
qed

lemma strictly_decreasing_rev_upto: "sorted_wrt (>) (rev [i..j])"
  by (simp add: sorted_wrt_rev)

lemma upto_1_3: "[1..3] = [1, 2, 3::int]"
  by (simp add: upto_rec1)

text \<open>
  C8. For every integer \<open>n\<close>, iterating \<^verbatim>\<open>countdown(n)\<close> to exhaustion ends and
  yields \<open>n, n - 1, \<dots>, 1\<close>, the reverse of the list \<open>[1..n]\<close>: strictly decreasing, and
  empty when \<open>n \<le> 0\<close>. The generator is finished afterwards.
\<close>

theorem countdown_yields:
  "fst (iterate (countdown n)) = rev [1..n]
 \<and> sorted_wrt (>) (fst (iterate (countdown n)))
 \<and> (n \<le> 0 \<longrightarrow> fst (iterate (countdown n)) = [])
 \<and> fst (snd (iterate (countdown n))) = Cd_finished"
proof -
  have vs: "fst (iterate (countdown n)) = rev [1..n]"
    and fin: "fst (snd (iterate (countdown n))) = Cd_finished"
    by (simp_all add: iterate_countdown)
  have "sorted_wrt (>) (rev [1..n])"
    by (rule strictly_decreasing_rev_upto)
  moreover have "rev [1..n] = []" if "n \<le> 0"
    using that by simp
  ultimately show ?thesis
    using vs fin by simp
qed

theorem countdown_yields_witness:
  "fst (iterate (countdown 3)) = [3, 2, 1] \<and> (0::int) \<le> 0 \<and> fst (iterate (countdown 0)) = []"
  using countdown_yields [of 3] countdown_yields [of 0] by (simp add: upto_1_3)

section \<open>Properties of \<^verbatim>\<open>CountUpIterator\<close> and \<^verbatim>\<open>CountUpIterable\<close>\<close>

lemma exhaust_eq:
  "exhaust h r =
     ([current (cells h r) + 1..it_max (cells h r)],
      h\<lparr>cells := (cells h)(r := (cells h r)\<lparr>current := max (current (cells h r)) (it_max (cells h r))\<rparr>)\<rparr>)"
proof (induction "nat (it_max (cells h r) - current (cells h r))" arbitrary: h)
  case 0
  then have "it_max (cells h r) \<le> current (cells h r)" by simp
  then show ?case
    by (simp add: exhaust.simps [of h r] CountUpIterator_next_def max_def)
next
  case (Suc k)
  let ?x = "cells h r"
  let ?h' = "h\<lparr>cells := (cells h)(r := ?x\<lparr>current := current ?x + 1\<rparr>)\<rparr>"
  have lt: "current ?x < it_max ?x" using Suc.hyps(2) by simp
  have "k = nat (it_max (cells ?h' r) - current (cells ?h' r))"
    using Suc.hyps(2) by simp
  note IH = Suc.hyps(1) [OF this]
  have nxt: "CountUpIterator_next h r = (Inr (current ?x + 1), ?h')"
    using lt by (simp add: CountUpIterator_next_def)
  have up: "[current ?x + 1..it_max ?x] = (current ?x + 1) # [current ?x + 1 + 1..it_max ?x]"
    using lt by (intro upto_rec1) simp
  show ?case
    using lt by (simp add: exhaust.simps [of h r] nxt IH up max_def)
qed



text \<open>An iterator, in contrast, is its own iterator: a second pass over it is empty.\<close>

lemma list_iterator_second_pass_empty:
  "fst (list_iterator (snd (list_iterator h r)) r) = []"
  by (simp add: list_iterator_def CountUpIterator_iter_def exhaust_eq)



lemma next_exhausted:
  assumes "it_max (cells h r) \<le> current (cells h r)"
  shows "CountUpIterator_next h r = (Inl (StopIteration VNone), h)"
  using assms by (simp add: CountUpIterator_next_def)

lemma next_times_exhausted:
  assumes "it_max (cells h r) \<le> current (cells h r)"
  shows "next_times k h r = (replicate k (Inl (StopIteration VNone)), h)"
  by (induction k) (simp_all add: next_exhausted [OF assms])

text \<open>
  C10. \<^verbatim>\<open>__next__\<close> raises if and only if \<open>current \<ge> max\<close>, and what it raises then
  is \<^verbatim>\<open>StopIteration\<close>. Once \<open>current \<ge> max\<close>, any number of further calls all raise
  \<^verbatim>\<open>StopIteration\<close> and leave the store, so the iterator's fields, as they were. An
  iterator constructed with \<open>max_inclusive \<le> 0\<close> is in that situation from the start.
\<close>

theorem next_raises_iff_exhausted:
  "((\<exists>e. fst (CountUpIterator_next h r) = Inl e) \<longleftrightarrow> it_max (cells h r) \<le> current (cells h r))
 \<and> (it_max (cells h r) \<le> current (cells h r) \<longrightarrow>
      CountUpIterator_next h r = (Inl (StopIteration VNone), h)
    \<and> next_times k h r = (replicate k (Inl (StopIteration VNone)), h))
 \<and> (m \<le> 0 \<longrightarrow>
      next_times k (snd (CountUpIterator_init h m)) (fst (CountUpIterator_init h m))
        = (replicate k (Inl (StopIteration VNone)), snd (CountUpIterator_init h m)))"
proof (intro conjI impI)
  show "(\<exists>e. fst (CountUpIterator_next h r) = Inl e) \<longleftrightarrow> it_max (cells h r) \<le> current (cells h r)"
    by (simp add: CountUpIterator_next_def)
next
  assume "it_max (cells h r) \<le> current (cells h r)"
  then show "CountUpIterator_next h r = (Inl (StopIteration VNone), h)"
    by (rule next_exhausted)
next
  assume "it_max (cells h r) \<le> current (cells h r)"
  then show "next_times k h r = (replicate k (Inl (StopIteration VNone)), h)"
    by (rule next_times_exhausted)
next
  assume "m \<le> 0"
  then have "it_max (cells (snd (CountUpIterator_init h m)) (fst (CountUpIterator_init h m)))
      \<le> current (cells (snd (CountUpIterator_init h m)) (fst (CountUpIterator_init h m)))"
    by (simp add: CountUpIterator_init_def)
  then show "next_times k (snd (CountUpIterator_init h m)) (fst (CountUpIterator_init h m))
        = (replicate k (Inl (StopIteration VNone)), snd (CountUpIterator_init h m))"
    by (rule next_times_exhausted)
qed

theorem next_raises_iff_exhausted_witness:
  "it_max (cells (snd (exhaust (snd (CountUpIterator_init empty_heap 3)) 0)) 0)
     \<le> current (cells (snd (exhaust (snd (CountUpIterator_init empty_heap 3)) 0)) 0) \<and>
   next_times 2 (snd (exhaust (snd (CountUpIterator_init empty_heap 3)) 0)) 0
     = ([Inl (StopIteration VNone), Inl (StopIteration VNone)],
        snd (exhaust (snd (CountUpIterator_init empty_heap 3)) 0)) \<and>
   (0::int) \<le> 0 \<and>
   fst (next_times 2 (snd (CountUpIterator_init empty_heap 0)) (fst (CountUpIterator_init empty_heap 0)))
     = [Inl (StopIteration VNone), Inl (StopIteration VNone)]"
proof -
  let ?h = "snd (exhaust (snd (CountUpIterator_init empty_heap 3)) 0)"
  have a: "it_max (cells ?h 0) \<le> current (cells ?h 0)"
    by (simp add: exhaust_eq CountUpIterator_init_def empty_heap_def)
  have r2: "replicate 2 x = [x, x]" for x :: "int result"
    by (simp add: eval_nat_numeral)
  from next_raises_iff_exhausted [where h = ?h and r = 0 and k = 2 and m = 0] a
  have t1: "next_times 2 ?h 0 = (replicate 2 (Inl (StopIteration VNone)), ?h)"
    by blast
  from next_raises_iff_exhausted [where h = empty_heap and r = 0 and k = 2 and m = 0]
  have t2: "next_times 2 (snd (CountUpIterator_init empty_heap 0))
              (fst (CountUpIterator_init empty_heap 0))
            = (replicate 2 (Inl (StopIteration VNone)), snd (CountUpIterator_init empty_heap 0))"
    by simp
  from a t1 t2 show ?thesis
    by (simp only: r2 fst_conv) simp
qed

end
